theory Spec2Isabelle
  imports Main "HOL-Library.Sublist"
begin

section \<open>coolmenu: the filter-and-select engine of \<^verbatim>\<open>coolmenu.py\<close>\<close>

text \<open>
  Python strings are modelled as \<^typ>\<open>string\<close>, Python integers as \<^typ>\<open>int\<close>.
  Two built-ins of the Python runtime depend on the Unicode tables, which are no part of
  the repository: \<^verbatim>\<open>str.lower\<close> and \<^verbatim>\<open>str.isprintable\<close>. Every function that calls
  one of them takes it as its first argument (\<open>lower\<close>, \<open>isprintable\<close>), so that the
  theorems hold for whatever these built-ins compute. \<open>ascii_lower\<close> and
  \<open>ascii_isprintable\<close> are what they compute on ASCII text; the examples use them.
  The terminal height (\<^verbatim>\<open>shutil.get_terminal_size((80, 20)).lines\<close>) is read from the
  environment at every call of \<^verbatim>\<open>visible_rows\<close>; it is the argument \<open>rows\<close>.
\<close>

subsection \<open>Built-ins\<close>

definition ascii_lower_char :: "char \<Rightarrow> char" where
  "ascii_lower_char c =
     (let n = (of_char c :: nat) in if 65 \<le> n \<and> n \<le> 90 then char_of (n + 32) else c)"

definition ascii_lower :: "string \<Rightarrow> string" where
  "ascii_lower s = map ascii_lower_char s"

definition ascii_printable_char :: "char \<Rightarrow> bool" where
  "ascii_printable_char c = (let n = (of_char c :: nat) in 32 \<le> n \<and> n \<le> 126)"

definition ascii_isprintable :: "string \<Rightarrow> bool" where
  "ascii_isprintable s = list_all ascii_printable_char s"

text \<open>\<^verbatim>\<open>text.startswith(sub)\<close> and \<^verbatim>\<open>sub in text\<close> on strings.\<close>

fun startswith :: "string \<Rightarrow> string \<Rightarrow> bool" where
  "startswith text [] = True"
| "startswith [] (c # sub) = False"
| "startswith (a # text) (c # sub) = (a = c \<and> startswith text sub)"

fun str_contains :: "string \<Rightarrow> string \<Rightarrow> bool" where
  "str_contains [] sub = (sub = [])"
| "str_contains (a # text) sub = (startswith (a # text) sub \<or> str_contains text sub)"

text \<open>\<^verbatim>\<open>xs[i]\<close> on a list: a negative index counts from the end, an index out of range
  raises \<^verbatim>\<open>IndexError\<close>.\<close>

datatype py_error = IndexError

definition py_index :: "'a list \<Rightarrow> int \<Rightarrow> py_error + 'a" where
  "py_index xs i =
     (if 0 \<le> i \<and> i < int (length xs) then Inr (xs ! nat i)
      else if - int (length xs) \<le> i \<and> i < 0 then Inr (xs ! nat (int (length xs) + i))
      else Inl IndexError)"

subsection \<open>\<^verbatim>\<open>fuzzy_score\<close>\<close>

text \<open>The inner \<^verbatim>\<open>while ti < len(text)\<close> loop for one pattern character \<open>pc\<close>, entered
  with \<^verbatim>\<open>found = False\<close>: the result is \<open>(found, score, ti)\<close> as the loop leaves
  them.\<close>

function scan :: "string \<Rightarrow> char \<Rightarrow> int \<Rightarrow> nat \<Rightarrow> bool \<times> int \<times> nat" where
  "scan text pc score ti =
     (if ti < length text
      then (if text ! ti = pc then (True, score + 10, ti + 1)
            else scan text pc score (ti + 1))
      else (False, score, ti))"
  by pat_completeness auto
termination
  by (relation "measure (\<lambda>(text, pc, score, ti). length text - ti)") auto

declare scan.simps [simp del]

text \<open>The \<^verbatim>\<open>for pc in pattern\<close> loop, from the current \<open>score\<close> and \<open>ti\<close>: \<open>None\<close> is
  the early \<^verbatim>\<open>return -1\<close>, \<open>Some (score, ti)\<close> the values after the loop.\<close>

fun for_pattern :: "string \<Rightarrow> string \<Rightarrow> int \<Rightarrow> nat \<Rightarrow> (int \<times> nat) option" where
  "for_pattern [] text score ti = Some (score, ti)"
| "for_pattern (pc # pattern) text score ti =
     (case scan text pc score ti of
        (True, score', ti') \<Rightarrow> for_pattern pattern text score' ti'
      | (False, score', ti') \<Rightarrow> None)"

definition fuzzy_score :: "(string \<Rightarrow> string) \<Rightarrow> string \<Rightarrow> string \<Rightarrow> int" where
  "fuzzy_score lower pattern0 text0 =
     (let pattern = lower pattern0;
          text = lower text0
      in case for_pattern pattern text 0 0 of
           None \<Rightarrow> - 1
         | Some (score, ti) \<Rightarrow> score - int (length text) div 4)"

subsection \<open>\<^verbatim>\<open>CoolMenu\<close>\<close>

text \<open>The fields of \<^verbatim>\<open>CoolMenu\<close> that the logic reads and writes. \<open>app_result\<close> is
  the state of \<^verbatim>\<open>self.app\<close>: \<open>None\<close> while the application runs, \<open>Some r\<close> once
  \<^verbatim>\<open>app.exit(result=r)\<close> was called (\<open>r = None\<close> for Python's \<^verbatim>\<open>None\<close>).\<close>

record menu =
  scroll :: int
  items :: "string list"
  query :: string
  filtered :: "string list"
  selected :: int
  app_result :: "string option option"

definition update_filter :: "(string \<Rightarrow> string) \<Rightarrow> menu \<Rightarrow> menu" where
  "update_filter lower st =
     (let q = lower (query st);
          st1 = (if q = [] then st\<lparr>filtered := items st\<rparr>
                 else st\<lparr>filtered := filter (\<lambda>it. str_contains (lower it) q) (items st)\<rparr>)
      in st1\<lparr>selected := 0\<rparr>)"

definition visible_rows :: "int \<Rightarrow> int" where
  "visible_rows rows = max 1 (rows - 6)"

definition move :: "int \<Rightarrow> int \<Rightarrow> menu \<Rightarrow> menu" where
  "move rows delta st =
     (if filtered st = [] then st
      else
        let st1 = st\<lparr>selected :=
                    max 0 (min (selected st + delta) (int (length (filtered st)) - 1))\<rparr>;
            visible = visible_rows rows
        in if selected st1 < scroll st1 then st1\<lparr>scroll := selected st1\<rparr>
           else if selected st1 \<ge> scroll st1 + visible
           then st1\<lparr>scroll := selected st1 - visible + 1\<rparr>
           else st1)"

definition launch_selected :: "menu \<Rightarrow> py_error + menu" where
  "launch_selected st =
     (if filtered st = [] then Inr st
      else case py_index (filtered st) (selected st) of
             Inl e \<Rightarrow> Inl e
           | Inr cmd \<Rightarrow> Inr (st\<lparr>app_result := Some (Some cmd)\<rparr>))"

text \<open>\<^verbatim>\<open>__init__\<close>: the fields are set, then \<^verbatim>\<open>update_filter\<close> is called.\<close>

definition init :: "(string \<Rightarrow> string) \<Rightarrow> string list \<Rightarrow> menu" where
  "init lower its =
     update_filter lower
       \<lparr>scroll = 0, items = its, query = [], filtered = its, selected = 0,
        app_result = None\<rparr>"

text \<open>The key bindings of \<^verbatim>\<open>bind_keys\<close>, one constructor for each key that has a
  handler of its own; \<open>AnyKey data\<close> is a key press that the dispatcher of
  \<^verbatim>\<open>prompt_toolkit\<close> hands to the \<^verbatim>\<open><any>\<close> handler, with \<^verbatim>\<open>event.data = data\<close>.\<close>

datatype key = Escape | CtrlC | Enter | Up | CtrlK | Down | CtrlJ | CtrlU | AnyKey string

fun handle_key ::
  "(string \<Rightarrow> string) \<Rightarrow> (string \<Rightarrow> bool) \<Rightarrow> int \<Rightarrow> key \<Rightarrow> menu \<Rightarrow> py_error + menu" where
  "handle_key lower isprintable rows Escape st = Inr (st\<lparr>app_result := Some None\<rparr>)"
| "handle_key lower isprintable rows CtrlC st = Inr (st\<lparr>app_result := Some None\<rparr>)"
| "handle_key lower isprintable rows Enter st = launch_selected st"
| "handle_key lower isprintable rows Up st = Inr (move rows (- 1) st)"
| "handle_key lower isprintable rows CtrlK st = Inr (move rows (- 1) st)"
| "handle_key lower isprintable rows Down st = Inr (move rows 1 st)"
| "handle_key lower isprintable rows CtrlJ st = Inr (move rows 1 st)"
| "handle_key lower isprintable rows CtrlU st = Inr (update_filter lower (st\<lparr>query := []\<rparr>))"
| "handle_key lower isprintable rows (AnyKey data) st =
     (if isprintable data
      then Inr (update_filter lower (st\<lparr>query := query st @ data\<rparr>))
      else if data = [CHR 0x08] \<or> data = [CHR 0x7F]
      then Inr (update_filter lower (st\<lparr>query := butlast (query st)\<rparr>))
      else Inr st)"

text \<open>\<^verbatim>\<open>app.run()\<close>: the key presses are handled one at a time, each with the terminal
  height of its moment, until \<^verbatim>\<open>app.exit\<close> has been called; an exception ends the
  run.\<close>

fun run ::
  "(string \<Rightarrow> string) \<Rightarrow> (string \<Rightarrow> bool) \<Rightarrow> (int \<times> key) list \<Rightarrow> menu \<Rightarrow> py_error + menu" where
  "run lower isprintable [] st = Inr st"
| "run lower isprintable ((rows, k) # evs) st =
     (if app_result st \<noteq> None then Inr st
      else case handle_key lower isprintable rows k st of
             Inl e \<Rightarrow> Inl e
           | Inr st' \<Rightarrow> run lower isprintable evs st')"

subsection \<open>Invariant of the selection\<close>

text \<open>\<^verbatim>\<open>selected\<close> is never negative, and it is an index of \<^verbatim>\<open>filtered\<close> unless that
  list is empty.\<close>

definition sel_inv :: "menu \<Rightarrow> bool" where
  "sel_inv st =
     (0 \<le> selected st \<and> (filtered st = [] \<or> selected st < int (length (filtered st))))"

section \<open>Properties\<close>

subsection \<open>Containment and subsequences\<close>

lemma startswith_prefix: "startswith t s = prefix s t"
  by (induction t s rule: startswith.induct) auto

lemma str_contains_sublist: "str_contains t s = sublist s t"
  by (induction t) (auto simp: startswith_prefix sublist_Cons_right)

lemma subseq_Cons_mem: "subseq (x # xs) ys \<Longrightarrow> x \<in> set ys"
  by (induction ys) (auto split: if_splits)

lemma ascii_lower_length: "length (ascii_lower s) = length s"
  by (simp add: ascii_lower_def)

lemma ascii_lower_Nil: "ascii_lower [] = []"
  by (simp add: ascii_lower_def)

subsection \<open>The scan of \<^verbatim>\<open>fuzzy_score\<close>\<close>

text \<open>A character that does not occur from \<open>ti\<close> on is not found.\<close>

lemma scan_absent:
  "pc \<notin> set (drop ti t) \<Longrightarrow> \<exists>ti'. scan t pc score ti = (False, score, ti')"
proof (induction t pc score ti rule: scan.induct)
  case (1 t pc score ti)
  show ?case
  proof (cases "ti < length t")
    case True
    then have d: "drop ti t = t ! ti # drop (Suc ti) t"
      by (simp add: Cons_nth_drop_Suc)
    with "1.prems" have ne: "t ! ti \<noteq> pc" and rest: "pc \<notin> set (drop (ti + 1) t)"
      by auto
    from "1.IH" [OF True ne rest] obtain ti' where
      "scan t pc score (ti + 1) = (False, score, ti')"
      by blast
    with True ne show ?thesis
      by (subst scan.simps) simp
  next
    case False
    then show ?thesis
      by (subst scan.simps) simp
  qed
qed

text \<open>A character that occurs from \<open>ti\<close> on is found at its first occurrence, and the
  scan resumes right after it: what is left of the pattern has to be a subsequence of
  what is left of the text.\<close>

lemma scan_present:
  "pc \<in> set (drop ti t) \<Longrightarrow>
   \<exists>ti'. scan t pc score ti = (True, score + 10, ti') \<and> ti < ti' \<and> ti' \<le> length t \<and>
     (\<forall>p. subseq (pc # p) (drop ti t) = subseq p (drop ti' t))"
proof (induction t pc score ti rule: scan.induct)
  case (1 t pc score ti)
  from "1.prems" have lt: "ti < length t"
    by (cases "ti < length t") auto
  then have d: "drop ti t = t ! ti # drop (Suc ti) t"
    by (simp add: Cons_nth_drop_Suc)
  show ?case
  proof (cases "t ! ti = pc")
    case True
    with lt have "scan t pc score ti = (True, score + 10, ti + 1)"
      by (subst scan.simps) simp
    moreover from True d have "\<forall>p. subseq (pc # p) (drop ti t) = subseq p (drop (ti + 1) t)"
      by simp
    ultimately show ?thesis
      using lt by auto
  next
    case False
    with "1.prems" d have rest: "pc \<in> set (drop (ti + 1) t)"
      by auto
    from "1.IH" [OF lt False rest] obtain ti' where
      s: "scan t pc score (ti + 1) = (True, score + 10, ti')"
      and b: "ti + 1 < ti'" "ti' \<le> length t"
      and q: "\<forall>p. subseq (pc # p) (drop (ti + 1) t) = subseq p (drop ti' t)"
      by blast
    from lt False s have "scan t pc score ti = (True, score + 10, ti')"
      by (subst scan.simps) simp
    moreover from False d q have "\<forall>p. subseq (pc # p) (drop ti t) = subseq p (drop ti' t)"
      by simp
    ultimately show ?thesis
      using b by auto
  qed
qed

lemma for_pattern_subseq:
  "(\<not> subseq p (drop ti t) \<longrightarrow> for_pattern p t score ti = None) \<and>
   (subseq p (drop ti t) \<longrightarrow>
      (\<exists>ti'. for_pattern p t score ti = Some (score + 10 * int (length p), ti')))"
proof (induction p arbitrary: score ti)
  case Nil
  show ?case by simp
next
  case (Cons pc p)
  show ?case
  proof (cases "pc \<in> set (drop ti t)")
    case True
    from scan_present [OF True] obtain ti' where
      s: "scan t pc score ti = (True, score + 10, ti')"
      and q: "\<forall>p. subseq (pc # p) (drop ti t) = subseq p (drop ti' t)"
      by blast
    from s have "for_pattern (pc # p) t score ti = for_pattern p t (score + 10) ti'"
      by simp
    with q Cons.IH [where score = "score + 10" and ti = ti'] show ?thesis
      by (auto simp: algebra_simps)
  next
    case False
    from scan_absent [OF False] obtain ti' where "scan t pc score ti = (False, score, ti')"
      by blast
    then have "for_pattern (pc # p) t score ti = None"
      by simp
    moreover from False have "\<not> subseq (pc # p) (drop ti t)"
      using subseq_Cons_mem [of pc p "drop ti t"] by blast
    ultimately show ?thesis
      by simp
  qed
qed

lemma fuzzy_score_subseq:
  "fuzzy_score lower P T =
     (if subseq (lower P) (lower T)
      then 10 * int (length (lower P)) - int (length (lower T)) div 4
      else - 1)"
proof -
  have "(\<not> subseq (lower P) (lower T) \<longrightarrow> for_pattern (lower P) (lower T) 0 0 = None) \<and>
   (subseq (lower P) (lower T) \<longrightarrow>
      (\<exists>ti'. for_pattern (lower P) (lower T) 0 0 = Some (10 * int (length (lower P)), ti')))"
    using for_pattern_subseq [where p = "lower P" and t = "lower T" and score = 0 and ti = 0]
    by simp
  then show ?thesis
    by (auto simp: fuzzy_score_def Let_def split: option.splits)
qed

subsection \<open>The fields that each operation writes\<close>

lemma update_filter_fields:
  "scroll (update_filter lower st) = scroll st"
  "items (update_filter lower st) = items st"
  "query (update_filter lower st) = query st"
  "selected (update_filter lower st) = 0"
  "app_result (update_filter lower st) = app_result st"
  by (simp_all add: update_filter_def Let_def)

lemma update_filter_filtered_eq:
  "filtered (update_filter lower st) =
     filter (\<lambda>c. sublist (lower (query st)) (lower c)) (items st)"
  by (simp add: update_filter_def Let_def str_contains_sublist)

lemma move_fields:
  "items (move rows delta st) = items st"
  "query (move rows delta st) = query st"
  "filtered (move rows delta st) = filtered st"
  "app_result (move rows delta st) = app_result st"
  by (simp_all add: move_def Let_def)

lemma move_selected:
  "filtered st \<noteq> [] \<Longrightarrow>
   selected (move rows delta st) =
     max 0 (min (selected st + delta) (int (length (filtered st)) - 1))"
  by (simp add: move_def Let_def)

lemma move_empty: "filtered st = [] \<Longrightarrow> move rows delta st = st"
  by (simp add: move_def)

text \<open>After \<^verbatim>\<open>move\<close> on a list that is not empty, the selection is inside the window of
  the height that this call has read.\<close>

lemma move_scroll_window:
  assumes "filtered st \<noteq> []"
  shows "scroll (move rows delta st) \<le> selected (move rows delta st) \<and>
         selected (move rows delta st) < scroll (move rows delta st) + visible_rows rows"
  using assms by (auto simp: move_def Let_def visible_rows_def max_def min_def)

subsection \<open>The invariant holds in every state that a run reaches\<close>

lemma update_filter_sel_inv: "sel_inv (update_filter lower st)"
  by (cases "filtered (update_filter lower st)")
     (simp_all add: sel_inv_def update_filter_fields)

lemma move_sel_inv: "sel_inv st \<Longrightarrow> sel_inv (move rows delta st)"
proof (cases "filtered st = []")
  case True
  assume "sel_inv st"
  with True show ?thesis by (simp add: move_empty)
next
  case False
  then have "0 < length (filtered st)" by simp
  with False show ?thesis
    by (simp add: sel_inv_def move_fields move_selected)
qed

lemma exit_sel_inv: "sel_inv st \<Longrightarrow> sel_inv (st\<lparr>app_result := r\<rparr>)"
  by (simp add: sel_inv_def)

lemma launch_selected_ok:
  assumes "sel_inv st"
  shows "launch_selected st =
     (if filtered st = [] then Inr st
      else Inr (st\<lparr>app_result := Some (Some (filtered st ! nat (selected st)))\<rparr>))"
  using assms by (auto simp: launch_selected_def py_index_def sel_inv_def)

lemma handle_key_sel_inv:
  assumes "sel_inv st"
  shows "\<exists>st'. handle_key lower isprintable rows k st = Inr st' \<and> sel_inv st'"
proof (cases k)
  case Enter
  with assms show ?thesis
    by (simp add: launch_selected_ok exit_sel_inv)
next
  case (AnyKey data)
  with assms show ?thesis
    by (simp add: update_filter_sel_inv)
qed (use assms in \<open>simp_all add: update_filter_sel_inv move_sel_inv exit_sel_inv\<close>)

lemma run_sel_inv:
  "sel_inv st \<Longrightarrow> \<exists>st'. run lower isprintable evs st = Inr st' \<and> sel_inv st'"
proof (induction evs arbitrary: st)
  case Nil
  then show ?case by simp
next
  case (Cons ev evs)
  obtain rows k where ev: "ev = (rows, k)" by (cases ev)
  show ?case
  proof (cases "app_result st = None")
    case True
    from handle_key_sel_inv [OF Cons.prems] obtain st1 where
      h: "handle_key lower isprintable rows k st = Inr st1" and i: "sel_inv st1"
      by blast
    from Cons.IH [OF i] obtain st' where
      "run lower isprintable evs st1 = Inr st'" "sel_inv st'"
      by blast
    with True h ev show ?thesis by simp
  next
    case False
    with Cons.prems ev show ?thesis by auto
  qed
qed

lemma init_sel_inv: "sel_inv (init lower its)"
  by (simp add: init_def update_filter_sel_inv)

lemma reachable_sel_inv:
  "\<exists>st. run lower isprintable evs (init lower its) = Inr st \<and> sel_inv st"
  by (rule run_sel_inv [OF init_sel_inv])

lemma run_exited: "app_result st \<noteq> None \<Longrightarrow> run lower isprintable evs st = Inr st"
  by (cases evs) auto

lemma move_zero_noop:
  assumes "sel_inv st" and "scroll st \<le> selected st"
    and "selected st < scroll st + visible_rows rows"
  shows "move rows 0 st = st"
proof (cases "filtered st = []")
  case True
  then show ?thesis by (simp add: move_empty)
next
  case False
  with assms(1) have "max 0 (min (selected st) (int (length (filtered st)) - 1)) = selected st"
    by (simp add: sel_inv_def)
  with False assms(2,3) show ?thesis
    by (simp add: move_def Let_def)
qed

section \<open>The claims\<close>

text \<open>
  In what follows a \<^emph>\<open>reached state\<close> is the result \<open>st\<close> of
  \<open>run lower isprintable evs (init lower its) = Inr st\<close>: the menu built from the
  candidates \<open>its\<close>, after the key presses \<open>evs\<close>, each with the terminal height of
  its moment.
\<close>

subsection \<open>C1: edit events and the scroll offset\<close>

text \<open>
  C1 says that every edit event (a printable character, backspace, clear) recomputes the
  filtered view and resets both the selection and the scroll offset to 0.
  \<^verbatim>\<open>update_filter\<close> recomputes \<^verbatim>\<open>filtered\<close> and sets \<^verbatim>\<open>selected\<close> to 0, and it never
  writes \<^verbatim>\<open>scroll\<close> (lemma \<open>update_filter_fields\<close>). On the candidates \<open>a\<close>, \<open>b\<close> in a
  terminal of 7 lines (one visible row), \<open>Down\<close> scrolls to offset 1; Ctrl-U, the
  character \<open>a\<close> and the \<^verbatim>\<open><any>\<close> handler on \<^verbatim>\<open>"\x7f"\<close> (backspace) each end with
  the selection at 0 and the scroll offset still at 1.
\<close>

theorem edit_keeps_scroll:
  "run ascii_lower ascii_isprintable [(7, Down), (7, CtrlU)] (init ascii_lower [''a'', ''b'']) =
     Inr \<lparr>scroll = 1, items = [''a'', ''b''], query = [], filtered = [''a'', ''b''],
          selected = 0, app_result = None\<rparr> \<and>
   run ascii_lower ascii_isprintable [(7, Down), (7, AnyKey ''a'')] (init ascii_lower [''a'', ''b'']) =
     Inr \<lparr>scroll = 1, items = [''a'', ''b''], query = ''a'', filtered = [''a''],
          selected = 0, app_result = None\<rparr> \<and>
   run ascii_lower ascii_isprintable [(7, Down), (7, AnyKey [CHR 0x7F])]
       (init ascii_lower [''a'', ''b'']) =
     Inr \<lparr>scroll = 1, items = [''a'', ''b''], query = [], filtered = [''a'', ''b''],
          selected = 0, app_result = None\<rparr>"
  by code_simp

subsection \<open>C2: the selection inside the visible window\<close>

text \<open>
  C2 says that after every transition \<open>ScrollOffset \<le> Selection < ScrollOffset +
  ViewportHeight\<close>, with \<open>ScrollOffset \<ge> 0\<close>. \<^verbatim>\<open>move\<close> establishes this for the height
  it reads (lemma \<open>move_scroll_window\<close>); an edit event does not, since it moves the
  selection to 0 and leaves the scroll offset where it was. On four candidates in a
  terminal of 8 lines (two visible rows), three times \<open>Down\<close> and then the character
  \<open>B\<close> end with the scroll offset 2 above the selection 0: the rows drawn start below
  both matches.
\<close>

theorem edit_leaves_selection_outside_window:
  "run ascii_lower ascii_isprintable [(8, Down), (8, Down), (8, Down), (8, AnyKey ''B'')]
       (init ascii_lower [''a'', ''b'', ''bb'', ''c'']) =
     Inr \<lparr>scroll = 2, items = [''a'', ''b'', ''bb'', ''c''], query = ''B'',
          filtered = [''b'', ''bb''], selected = 0, app_result = None\<rparr> \<and>
   \<not> (scroll \<lparr>scroll = 2, items = [''a'', ''b'', ''bb'', ''c''], query = ''B'',
          filtered = [''b'', ''bb''], selected = 0, app_result = None\<rparr>
       \<le> selected \<lparr>scroll = 2, items = [''a'', ''b'', ''bb'', ''c''], query = ''B'',
          filtered = [''b'', ''bb''], selected = 0, app_result = None\<rparr>)"
  by code_simp

subsection \<open>C3: the fuzzy score\<close>

text \<open>
  C3: \<^verbatim>\<open>fuzzy_score\<close> lowercases pattern and text and scans the text from left to right
  for the characters of the pattern, in order and at advancing positions. The scan
  succeeds exactly when the lowercased pattern is a subsequence of the lowercased text;
  then the result is ten times the length of the pattern minus a quarter (rounded down)
  of the length of the text, and otherwise it is \<open>-1\<close>. The lengths are those of the
  lowercased strings, which the code binds to \<^verbatim>\<open>pattern\<close> and \<^verbatim>\<open>text\<close>; with the ASCII
  lowercasing they are the lengths of the arguments. In particular the score of \<open>gt\<close> in
  \<open>git\<close> is 20 and the score of \<open>xyz\<close> in \<open>abc\<close> is \<open>-1\<close>.
\<close>

theorem fuzzy_score_formula:
  "fuzzy_score lower P T =
     (if subseq (lower P) (lower T)
      then 10 * int (length (lower P)) - int (length (lower T)) div 4
      else - 1) \<and>
   fuzzy_score ascii_lower P T =
     (if subseq (ascii_lower P) (ascii_lower T)
      then 10 * int (length P) - int (length T) div 4
      else - 1) \<and>
   fuzzy_score ascii_lower ''gt'' ''git'' = 20 \<and>
   fuzzy_score ascii_lower ''xyz'' ''abc'' = - 1"
proof (intro conjI)
  show "fuzzy_score lower P T =
     (if subseq (lower P) (lower T)
      then 10 * int (length (lower P)) - int (length (lower T)) div 4
      else - 1)"
    by (rule fuzzy_score_subseq)
  show "fuzzy_score ascii_lower P T =
     (if subseq (ascii_lower P) (ascii_lower T)
      then 10 * int (length P) - int (length T) div 4
      else - 1)"
    using fuzzy_score_subseq [of ascii_lower P T] by (simp add: ascii_lower_length)
  show "fuzzy_score ascii_lower ''gt'' ''git'' = 20"
    by code_simp
  show "fuzzy_score ascii_lower ''xyz'' ''abc'' = - 1"
    by code_simp
qed

theorem fuzzy_score_formula_witness:
  "fuzzy_score ascii_lower ''GT'' ''gIt'' = 20 \<and> fuzzy_score ascii_lower ''tg'' ''gIt'' = - 1"
proof -
  have a: "ascii_lower ''GT'' = ''gt''" "ascii_lower ''gIt'' = ''git''"
    "ascii_lower ''tg'' = ''tg''"
    by code_simp+
  show ?thesis
    using fuzzy_score_formula [of ascii_lower "''GT''" "''gIt''"]
      fuzzy_score_formula [of ascii_lower "''tg''" "''gIt''"]
    by (simp add: a)
qed

subsection \<open>C4: the filtered view\<close>

text \<open>
  C4: the filtered view that \<^verbatim>\<open>update_filter\<close> computes holds exactly the candidates
  whose lowercased form contains the lowercased query as a contiguous substring, in the
  order of the candidate list; for the empty query it is the candidate list itself. Each
  edit event (Ctrl-U, a printable \<^verbatim>\<open>event.data\<close>, backspace) is \<^verbatim>\<open>update_filter\<close> on the
  edited query.
\<close>

theorem filtered_view_after_edit:
  "filtered (update_filter lower st) =
     filter (\<lambda>c. \<exists>pre suf. lower c = pre @ lower (query st) @ suf) (items st) \<and>
   (lower [] = [] \<and> query st = [] \<longrightarrow> filtered (update_filter lower st) = items st) \<and>
   handle_key lower isprintable rows CtrlU st = Inr (update_filter lower (st\<lparr>query := []\<rparr>)) \<and>
   (isprintable data \<longrightarrow>
      handle_key lower isprintable rows (AnyKey data) st =
        Inr (update_filter lower (st\<lparr>query := query st @ data\<rparr>))) \<and>
   (\<not> isprintable data \<and> (data = [CHR 0x08] \<or> data = [CHR 0x7F]) \<longrightarrow>
      handle_key lower isprintable rows (AnyKey data) st =
        Inr (update_filter lower (st\<lparr>query := butlast (query st)\<rparr>)))"
proof (intro conjI)
  show "filtered (update_filter lower st) =
     filter (\<lambda>c. \<exists>pre suf. lower c = pre @ lower (query st) @ suf) (items st)"
    by (simp add: update_filter_filtered_eq sublist_def)
  show "lower [] = [] \<and> query st = [] \<longrightarrow> filtered (update_filter lower st) = items st"
    by (simp add: update_filter_def Let_def)
qed simp_all

theorem filtered_view_after_edit_witness:
  "filtered (update_filter ascii_lower
      \<lparr>scroll = 0, items = [''bash'', ''cat'', ''catdoc'', ''echo''], query = ''Cat'',
       filtered = [], selected = 3, app_result = None\<rparr>) = [''cat'', ''catdoc''] \<and>
   filtered (update_filter ascii_lower
      \<lparr>scroll = 0, items = [''bash'', ''cat'', ''catdoc'', ''echo''], query = [],
       filtered = [], selected = 3, app_result = None\<rparr>) =
     [''bash'', ''cat'', ''catdoc'', ''echo''] \<and>
   handle_key ascii_lower ascii_isprintable 20 (AnyKey ''c'')
      \<lparr>scroll = 0, items = [''bash'', ''cat''], query = ''a'',
       filtered = [''bash'', ''cat''], selected = 1, app_result = None\<rparr> =
     Inr (update_filter ascii_lower
      \<lparr>scroll = 0, items = [''bash'', ''cat''], query = ''ac'',
       filtered = [''bash'', ''cat''], selected = 1, app_result = None\<rparr>) \<and>
   handle_key ascii_lower ascii_isprintable 20 (AnyKey [CHR 0x7F])
      \<lparr>scroll = 0, items = [''bash'', ''cat''], query = ''ac'',
       filtered = [], selected = 0, app_result = None\<rparr> =
     Inr (update_filter ascii_lower
      \<lparr>scroll = 0, items = [''bash'', ''cat''], query = ''a'',
       filtered = [], selected = 0, app_result = None\<rparr>)"
proof (intro conjI)
  let ?its = "[''bash'', ''cat'', ''catdoc'', ''echo'']"
  let ?s = "\<lparr>scroll = 0, items = ?its, query = ''Cat'',
       filtered = [], selected = 3, app_result = None\<rparr>"
  let ?e = "\<lparr>scroll = 0, items = ?its, query = [],
       filtered = [], selected = 3, app_result = None\<rparr>"
  have "filtered (update_filter ascii_lower ?s) =
      filter (\<lambda>c. sublist (ascii_lower ''Cat'') (ascii_lower c)) ?its"
    using filtered_view_after_edit [of ascii_lower ?s, THEN conjunct1]
    by (simp add: sublist_def)
  also have "\<dots> = [''cat'', ''catdoc'']"
    by code_simp
  finally show "filtered (update_filter ascii_lower ?s) = [''cat'', ''catdoc'']" .
  show "filtered (update_filter ascii_lower ?e) = ?its"
    using filtered_view_after_edit [of ascii_lower ?e, THEN conjunct2, THEN conjunct1]
    by (simp add: ascii_lower_Nil)
  have p: "ascii_isprintable ''c''" "\<not> ascii_isprintable [CHR 0x7F]"
    by code_simp+
  let ?t = "\<lparr>scroll = 0, items = [''bash'', ''cat''], query = ''a'',
       filtered = [''bash'', ''cat''], selected = 1, app_result = None\<rparr>"
  show "handle_key ascii_lower ascii_isprintable 20 (AnyKey ''c'') ?t =
     Inr (update_filter ascii_lower
      \<lparr>scroll = 0, items = [''bash'', ''cat''], query = ''ac'',
       filtered = [''bash'', ''cat''], selected = 1, app_result = None\<rparr>)"
    using filtered_view_after_edit [of ascii_lower ?t ascii_isprintable 20 "''c''",
        THEN conjunct2, THEN conjunct2, THEN conjunct2, THEN conjunct1] p
    by simp
  let ?u = "\<lparr>scroll = 0, items = [''bash'', ''cat''], query = ''ac'',
       filtered = [], selected = 0, app_result = None\<rparr>"
  show "handle_key ascii_lower ascii_isprintable 20 (AnyKey [CHR 0x7F]) ?u =
     Inr (update_filter ascii_lower
      \<lparr>scroll = 0, items = [''bash'', ''cat''], query = ''a'',
       filtered = [], selected = 0, app_result = None\<rparr>)"
    using filtered_view_after_edit [of ascii_lower ?u ascii_isprintable 20 "[CHR 0x7F]",
        THEN conjunct2, THEN conjunct2, THEN conjunct2, THEN conjunct2] p
    by simp
qed

subsection \<open>C5: the bounds of the selection\<close>

text \<open>
  C5: every sequence of key presses ends in a state, without an exception, and in that
  state the selection is an index of the filtered view whenever the view is not empty:
  \<open>0 \<le> selected < len(filtered)\<close>. In particular \<^verbatim>\<open>move\<close> on a view that is not empty
  sets the selection to \<open>selected + delta\<close> clamped into \<open>[0, len(filtered) - 1]\<close>.
\<close>

theorem selection_bounds:
  "(\<exists>st. run lower isprintable evs (init lower its) = Inr st \<and>
      (filtered st \<noteq> [] \<longrightarrow> 0 \<le> selected st \<and> selected st < int (length (filtered st)))) \<and>
   (filtered s \<noteq> [] \<longrightarrow>
      selected (move rows delta s) =
        max 0 (min (selected s + delta) (int (length (filtered s)) - 1)) \<and>
      0 \<le> selected (move rows delta s) \<and>
      selected (move rows delta s) \<le> int (length (filtered s)) - 1)"
proof
  from reachable_sel_inv [of lower isprintable evs its] obtain st where
    "run lower isprintable evs (init lower its) = Inr st" and "sel_inv st"
    by blast
  then show "\<exists>st. run lower isprintable evs (init lower its) = Inr st \<and>
      (filtered st \<noteq> [] \<longrightarrow> 0 \<le> selected st \<and> selected st < int (length (filtered st)))"
    by (auto simp: sel_inv_def)
next
  show "filtered s \<noteq> [] \<longrightarrow>
      selected (move rows delta s) =
        max 0 (min (selected s + delta) (int (length (filtered s)) - 1)) \<and>
      0 \<le> selected (move rows delta s) \<and>
      selected (move rows delta s) \<le> int (length (filtered s)) - 1"
  proof
    assume ne: "filtered s \<noteq> []"
    then have "0 < length (filtered s)" by simp
    with ne show "selected (move rows delta s) =
        max 0 (min (selected s + delta) (int (length (filtered s)) - 1)) \<and>
      0 \<le> selected (move rows delta s) \<and>
      selected (move rows delta s) \<le> int (length (filtered s)) - 1"
      by (simp add: move_selected)
  qed
qed

theorem selection_bounds_witness:
  "run ascii_lower ascii_isprintable [(20, AnyKey ''A''), (20, Down), (20, Down), (20, Down)]
       (init ascii_lower [''bash'', ''cat'', ''echo'']) =
     Inr \<lparr>scroll = 0, items = [''bash'', ''cat'', ''echo''], query = ''A'',
          filtered = [''bash'', ''cat''], selected = 1, app_result = None\<rparr> \<and>
   0 \<le> selected \<lparr>scroll = 0, items = [''bash'', ''cat'', ''echo''], query = ''A'',
          filtered = [''bash'', ''cat''], selected = 1, app_result = None\<rparr> \<and>
   selected \<lparr>scroll = 0, items = [''bash'', ''cat'', ''echo''], query = ''A'',
          filtered = [''bash'', ''cat''], selected = 1, app_result = None\<rparr>
     < int (length [''bash'', ''cat'']) \<and>
   selected (move 20 (- 5) \<lparr>scroll = 0, items = [''bash'', ''cat'', ''echo''], query = ''A'',
          filtered = [''bash'', ''cat''], selected = 1, app_result = None\<rparr>) = 0"
proof -
  let ?evs = "[(20, AnyKey ''A''), (20, Down), (20, Down), (20, Down)]"
  let ?its = "[''bash'', ''cat'', ''echo'']"
  let ?s = "\<lparr>scroll = 0, items = ?its, query = ''A'',
          filtered = [''bash'', ''cat''], selected = 1, app_result = None\<rparr>"
  have e: "run ascii_lower ascii_isprintable ?evs (init ascii_lower ?its) = Inr ?s"
    by code_simp
  note b = selection_bounds [of ascii_lower ascii_isprintable ?evs ?its ?s 20 "- 5"]
  from b e have "filtered ?s \<noteq> [] \<longrightarrow> 0 \<le> selected ?s \<and> selected ?s < int (length (filtered ?s))"
    by auto
  moreover from b have "filtered ?s \<noteq> [] \<longrightarrow> selected (move 20 (- 5) ?s) =
        max 0 (min (selected ?s + - 5) (int (length (filtered ?s)) - 1))"
    by blast
  ultimately show ?thesis
    using e by simp
qed

subsection \<open>C6: the sentinel of the fuzzy score\<close>

text \<open>
  C6 says that \<open>-1\<close>, which the docstring of \<^verbatim>\<open>fuzzy_score\<close> reserves for "no match",
  is strictly below every score of a successful match. The penalty \<open>len(text) // 4\<close> is
  subtracted after the scan and can exceed what the matched characters earned: the empty
  pattern matches \<open>bash\<close> (the loop runs to its end) with score \<open>-1\<close> and \<open>coolmenu\<close>
  with score \<open>-2\<close>, and the pattern \<open>a\<close> matches a text of 44 characters that starts
  with \<open>a\<close> with score \<open>-1\<close>.
\<close>

theorem fuzzy_score_match_at_sentinel:
  "for_pattern (ascii_lower []) (ascii_lower ''bash'') 0 0 = Some (0, 0) \<and>
   fuzzy_score ascii_lower [] ''bash'' = - 1 \<and>
   fuzzy_score ascii_lower [] ''coolmenu'' = - 2 \<and>
   for_pattern (ascii_lower ''a'') (ascii_lower (CHR ''a'' # replicate 43 (CHR ''x''))) 0 0 =
     Some (10, 1) \<and>
   fuzzy_score ascii_lower ''a'' (CHR ''a'' # replicate 43 (CHR ''x'')) = - 1"
  by code_simp

subsection \<open>C7: confirm\<close>

text \<open>
  C7: in a reached state of a running session, Enter on an empty filtered view leaves
  the state as it is and the session goes on with the next key press; on a view that is
  not empty the selection is an index of the view, the application exits with the
  candidate at that index as its result, and no later key press is handled.
\<close>

theorem confirm_result:
  assumes "run lower isprintable evs (init lower its) = Inr st"
    and "app_result st = None"
  shows "(filtered st = [] \<longrightarrow>
            handle_key lower isprintable rows Enter st = Inr st \<and>
            run lower isprintable ((rows, Enter) # later) st = run lower isprintable later st) \<and>
         (filtered st \<noteq> [] \<longrightarrow>
            0 \<le> selected st \<and> selected st < int (length (filtered st)) \<and>
            handle_key lower isprintable rows Enter st =
              Inr (st\<lparr>app_result := Some (Some (filtered st ! nat (selected st)))\<rparr>) \<and>
            run lower isprintable ((rows, Enter) # later) st =
              Inr (st\<lparr>app_result := Some (Some (filtered st ! nat (selected st)))\<rparr>))"
proof -
  from reachable_sel_inv [of lower isprintable evs its] assms(1) have inv: "sel_inv st"
    by auto
  then have h: "handle_key lower isprintable rows Enter st =
     (if filtered st = [] then Inr st
      else Inr (st\<lparr>app_result := Some (Some (filtered st ! nat (selected st)))\<rparr>))"
    by (simp add: launch_selected_ok)
  from inv have b: "filtered st \<noteq> [] \<longrightarrow>
      0 \<le> selected st \<and> selected st < int (length (filtered st))"
    by (auto simp: sel_inv_def)
  from assms(2) have "run lower isprintable ((rows, Enter) # later) st =
     (case handle_key lower isprintable rows Enter st of
        Inl e \<Rightarrow> Inl e
      | Inr st' \<Rightarrow> run lower isprintable later st')"
    by simp
  with h b show ?thesis
    by (simp add: run_exited)
qed

theorem confirm_result_witness:
  "run ascii_lower ascii_isprintable [(20, Enter), (20, Up), (20, Escape)]
      \<lparr>scroll = 0, items = [''bash'', ''cat'', ''catdoc'', ''echo''], query = ''cat'',
       filtered = [''cat'', ''catdoc''], selected = 1, app_result = None\<rparr> =
     Inr \<lparr>scroll = 0, items = [''bash'', ''cat'', ''catdoc'', ''echo''], query = ''cat'',
          filtered = [''cat'', ''catdoc''], selected = 1,
          app_result = Some (Some ''catdoc'')\<rparr> \<and>
   handle_key ascii_lower ascii_isprintable 20 Enter
      \<lparr>scroll = 0, items = [''bash'', ''cat''], query = ''z'',
       filtered = [], selected = 0, app_result = None\<rparr> =
     Inr \<lparr>scroll = 0, items = [''bash'', ''cat''], query = ''z'',
          filtered = [], selected = 0, app_result = None\<rparr>"
proof -
  let ?its = "[''bash'', ''cat'', ''catdoc'', ''echo'']"
  let ?evs = "[(20, AnyKey ''c''), (20, AnyKey ''a''), (20, AnyKey ''t''), (20, Down)]"
  let ?s = "\<lparr>scroll = 0, items = ?its, query = ''cat'',
       filtered = [''cat'', ''catdoc''], selected = 1, app_result = None\<rparr>"
  let ?z = "\<lparr>scroll = 0, items = [''bash'', ''cat''], query = ''z'',
       filtered = [], selected = 0, app_result = None\<rparr>"
  have e: "run ascii_lower ascii_isprintable ?evs (init ascii_lower ?its) = Inr ?s"
    by code_simp
  have f: "run ascii_lower ascii_isprintable [(20, AnyKey ''z'')]
      (init ascii_lower [''bash'', ''cat'']) = Inr ?z"
    by code_simp
  have l: "app_result ?s = None" "app_result ?z = None"
    by simp_all
  from confirm_result [OF e l(1), of 20 "[(20, Up), (20, Escape)]"]
  have "run ascii_lower ascii_isprintable [(20, Enter), (20, Up), (20, Escape)] ?s =
      Inr (?s\<lparr>app_result := Some (Some (filtered ?s ! nat (selected ?s)))\<rparr>)"
    by simp
  moreover from confirm_result [OF f l(2), of 20 "[]"]
  have "handle_key ascii_lower ascii_isprintable 20 Enter ?z = Inr ?z"
    by simp
  ultimately show ?thesis
    by simp
qed

subsection \<open>C8: moves that change nothing\<close>

text \<open>
  C8, amended: in a reached state whose selection is inside the window of the current
  height (\<open>scroll \<le> selected < scroll + visible_rows rows\<close>), \<^verbatim>\<open>move(0)\<close> leaves the whole
  state unchanged; and \<^verbatim>\<open>move(delta)\<close> on an empty filtered view leaves the whole state
  unchanged, for every \<open>delta\<close>.
\<close>

theorem move_noop:
  assumes "run lower isprintable evs (init lower its) = Inr st"
  shows "(scroll st \<le> selected st \<and> selected st < scroll st + visible_rows rows \<longrightarrow>
            move rows 0 st = st) \<and>
         (filtered st = [] \<longrightarrow> move rows delta st = st)"
proof -
  from reachable_sel_inv [of lower isprintable evs its] assms have "sel_inv st"
    by auto
  then show ?thesis
    by (simp add: move_zero_noop move_empty)
qed

theorem move_noop_witness:
  "move 9 0 \<lparr>scroll = 0, items = [''a'', ''b'', ''c''], query = [],
             filtered = [''a'', ''b'', ''c''], selected = 2, app_result = None\<rparr> =
     \<lparr>scroll = 0, items = [''a'', ''b'', ''c''], query = [],
      filtered = [''a'', ''b'', ''c''], selected = 2, app_result = None\<rparr> \<and>
   move 9 5 \<lparr>scroll = 0, items = [''a'', ''b'', ''c''], query = ''z'',
             filtered = [], selected = 0, app_result = None\<rparr> =
     \<lparr>scroll = 0, items = [''a'', ''b'', ''c''], query = ''z'',
      filtered = [], selected = 0, app_result = None\<rparr>"
proof -
  let ?its = "[''a'', ''b'', ''c'']"
  let ?s = "\<lparr>scroll = 0, items = ?its, query = [],
             filtered = ?its, selected = 2, app_result = None\<rparr>"
  let ?z = "\<lparr>scroll = 0, items = ?its, query = ''z'',
             filtered = [], selected = 0, app_result = None\<rparr>"
  have e: "run ascii_lower ascii_isprintable [(9, Down), (9, Down)] (init ascii_lower ?its) =
      Inr ?s"
    by code_simp
  have f: "run ascii_lower ascii_isprintable [(9, Down), (9, AnyKey ''z'')]
      (init ascii_lower ?its) = Inr ?z"
    by code_simp
  show ?thesis
    using move_noop [OF e, of 9 0] move_noop [OF f, of 9 5]
    by (simp add: visible_rows_def)
qed

text \<open>
  Without the condition on the window the statement fails: \<^verbatim>\<open>move\<close> reads the terminal
  height at every call and scrolls the selection back into view. With three candidates
  in a terminal of 9 lines, twice \<open>Down\<close> selects index 2 at scroll offset 0; once the
  terminal has shrunk to 7 lines, \<^verbatim>\<open>move(0)\<close> sets the scroll offset to 2.
\<close>

theorem move_zero_after_resize_counterexample:
  "run ascii_lower ascii_isprintable [(9, Down), (9, Down)] (init ascii_lower [''a'', ''b'', ''c'']) =
     Inr \<lparr>scroll = 0, items = [''a'', ''b'', ''c''], query = [],
          filtered = [''a'', ''b'', ''c''], selected = 2, app_result = None\<rparr> \<and>
   move 7 0 \<lparr>scroll = 0, items = [''a'', ''b'', ''c''], query = [],
             filtered = [''a'', ''b'', ''c''], selected = 2, app_result = None\<rparr> =
     \<lparr>scroll = 2, items = [''a'', ''b'', ''c''], query = [],
      filtered = [''a'', ''b'', ''c''], selected = 2, app_result = None\<rparr> \<and>
   move 7 0 \<lparr>scroll = 0, items = [''a'', ''b'', ''c''], query = [],
             filtered = [''a'', ''b'', ''c''], selected = 2, app_result = None\<rparr> \<noteq>
     \<lparr>scroll = 0, items = [''a'', ''b'', ''c''], query = [],
      filtered = [''a'', ''b'', ''c''], selected = 2, app_result = None\<rparr>"
  by code_simp

subsection \<open>C9: the viewport height\<close>

text \<open>
  C9: the viewport height that \<^verbatim>\<open>move\<close> uses, \<^verbatim>\<open>visible_rows\<close>, is at least 1 for every
  terminal height: it is the terminal height minus 6, and 1 when that is 0 or negative.
\<close>

theorem visible_rows_at_least_one:
  "1 \<le> visible_rows rows \<and>
   visible_rows rows = (if rows - 6 < 1 then 1 else rows - 6) \<and>
   visible_rows 6 = 1 \<and> visible_rows 0 = 1 \<and> visible_rows (- 3) = 1"
  by (simp add: visible_rows_def)

subsection \<open>C10: what navigation leaves alone\<close>

text \<open>
  C10: \<^verbatim>\<open>move\<close> changes at most \<^verbatim>\<open>selected\<close> and \<^verbatim>\<open>scroll\<close>; the query, the filtered view
  and the candidate list stay as they are. The four navigation keys are \<^verbatim>\<open>move(-1)\<close> and
  \<^verbatim>\<open>move(1)\<close>.
\<close>

theorem move_frame:
  "move rows delta st =
     st\<lparr>selected := selected (move rows delta st), scroll := scroll (move rows delta st)\<rparr> \<and>
   query (move rows delta st) = query st \<and>
   filtered (move rows delta st) = filtered st \<and>
   items (move rows delta st) = items st \<and>
   handle_key lower isprintable rows Up st = Inr (move rows (- 1) st) \<and>
   handle_key lower isprintable rows CtrlK st = Inr (move rows (- 1) st) \<and>
   handle_key lower isprintable rows Down st = Inr (move rows 1 st) \<and>
   handle_key lower isprintable rows CtrlJ st = Inr (move rows 1 st)"
  by (simp add: move_def Let_def)

end
